theory Spec2Isabelle
  imports Main "HOL-Library.AList"
begin

section \<open>Shallow embedding of \<^verbatim>\<open>scripts/cov2ai.py\<close>\<close>

text \<open>
  The script reads an LCOV report line by line (\<^verbatim>\<open>parse_lcov\<close>), merges the
  uncovered line numbers of each record into inclusive ranges (\<^verbatim>\<open>merge_ranges\<close>) and
  builds one payload per record with snippets of the source text
  (\<^verbatim>\<open>llm_payload_from_lcov\<close> and its local function \<^verbatim>\<open>slice_around\<close>).

  Python's \<^verbatim>\<open>str\<close> is modelled as \<^typ>\<open>string\<close>, one \<^typ>\<open>char\<close> per code point, for
  texts whose code points are below 256. Python's \<^verbatim>\<open>int\<close> is \<^typ>\<open>int\<close>. A \<^verbatim>\<open>dict\<close>
  is an association list in insertion order, which is the order Python iterates it in.
  The file system is a function from a path to the lines of the file there,
  \<open>None\<close> when the file cannot be opened or read. Exceptions are values of the type
  \<open>error\<close>, returned as \<open>Inl\<close>.

  Not modelled: the \<^verbatim>\<open>__main__\<close> block (argument parsing, the prompt file, printing),
  code points from 256 on, and a decoding error in the middle of the report.
\<close>

subsection \<open>Exceptions\<close>

datatype error =
    ValueError_literal string  \<comment> \<open>\<^verbatim>\<open>int(s)\<close>: invalid literal for int() with base 10: s\<close>
  | ValueError_digits nat      \<comment> \<open>\<^verbatim>\<open>int(s)\<close>: exceeds the limit (4300 digits): value has n digits\<close>
  | ValueError_unpack          \<comment> \<open>tuple unpacking: not enough or too many values\<close>
  | IndexError                 \<comment> \<open>list index out of range\<close>
  | TypeError                  \<comment> \<open>\<^verbatim>\<open>None[...]\<close>: 'NoneType' object is not subscriptable\<close>
  | AttributeError             \<comment> \<open>\<^verbatim>\<open>None.setdefault\<close>: 'NoneType' object has no attribute\<close>
  | OSError                    \<comment> \<open>\<^verbatim>\<open>open(path)\<close> fails\<close>

definition bind_err :: "error + 'a \<Rightarrow> ('a \<Rightarrow> error + 'b) \<Rightarrow> error + 'b" where
  "bind_err m f = (case m of Inl e \<Rightarrow> Inl e | Inr x \<Rightarrow> f x)"

subsection \<open>String operations of the Python library\<close>

definition startswith :: "string \<Rightarrow> string \<Rightarrow> bool" where
  "startswith s p = (take (length p) s = p)"

definition endswith :: "string \<Rightarrow> string \<Rightarrow> bool" where
  "endswith s p = (length p \<le> length s \<and> drop (length s - length p) s = p)"

text \<open>\<^verbatim>\<open>str.isspace\<close> on the code points below 256; \<^verbatim>\<open>str.strip()\<close> removes these.\<close>

definition is_space :: "char \<Rightarrow> bool" where
  "is_space c = (c \<in> set [CHR 0x09, CHR 0x0A, CHR 0x0B, CHR 0x0C, CHR 0x0D,
     CHR 0x1C, CHR 0x1D, CHR 0x1E, CHR 0x1F, CHR 0x20, CHR 0x85, CHR 0xA0])"

definition strip :: "string \<Rightarrow> string" where
  "strip s = rev (dropWhile is_space (rev (dropWhile is_space s)))"

text \<open>
  \<^verbatim>\<open>s.split(sep, maxsplit)\<close> for a one-character separator: \<open>py_split sep n s\<close> splits at
  the first \<open>n\<close> separators. \<^verbatim>\<open>s.split(sep)\<close> is \<open>py_split sep (length s) s\<close>, since a
  string has at most \<open>length s\<close> separators.
\<close>

fun py_split :: "char \<Rightarrow> nat \<Rightarrow> string \<Rightarrow> string list" where
  "py_split sep n [] = [[]]"
| "py_split sep 0 (c # cs) = [c # cs]"
| "py_split sep (Suc n) (c # cs) =
     (if c = sep then [] # py_split sep n cs
      else (case py_split sep (Suc n) cs of
              [] \<Rightarrow> [[c]]
            | p # ps \<Rightarrow> (c # p) # ps))"

text \<open>
  \<^verbatim>\<open>int(s)\<close> in base 10: white space around the literal is skipped (of the code points
  below 256, \<^verbatim>\<open>int\<close> skips the ones below, fewer than \<^verbatim>\<open>strip\<close>), then an optional sign,
  then decimal digits, where single underscores may stand between two digits. The
  interpreter scans the run of digits and underscores first and rejects a misplaced
  underscore there; then it counts the digits of the run against its limit (4300 by
  default); only then does it reject text after the run.
\<close>

definition is_int_space :: "char \<Rightarrow> bool" where
  "is_int_space c = (c \<in> set [CHR 0x09, CHR 0x0A, CHR 0x0B, CHR 0x0C, CHR 0x0D,
     CHR 0x20, CHR 0x85, CHR 0xA0])"

definition is_digit :: "char \<Rightarrow> bool" where
  "is_digit c = (c \<in> set ''0123456789'')"

definition digit_val :: "char \<Rightarrow> int" where
  "digit_val c = int (of_char c) - 48"

fun digits_ok :: "string \<Rightarrow> bool" where
  "digits_ok [] = False"
| "digits_ok [c] = is_digit c"
| "digits_ok (c # d # cs) =
     (is_digit c \<and> (if d = CHR ''_'' then digits_ok cs else digits_ok (d # cs)))"

definition digits_value :: "string \<Rightarrow> int" where
  "digits_value ds = foldl (\<lambda>a c. 10 * a + digit_val c) 0 ds"

definition py_int :: "string \<Rightarrow> error + int" where
  "py_int s =
     (let t = rev (dropWhile is_int_space (rev (dropWhile is_int_space s)));
          neg = startswith t ''-'';
          body = (if startswith t ''-'' \<or> startswith t ''+'' then drop 1 t else t);
          run = takeWhile (\<lambda>c. is_digit c \<or> c = CHR ''_'') body;
          rest = dropWhile (\<lambda>c. is_digit c \<or> c = CHR ''_'') body;
          ds = filter is_digit run
      in if \<not> digits_ok run then Inl (ValueError_literal s)
         else if length ds > 4300 then Inl (ValueError_digits (length ds))
         else if rest \<noteq> [] then Inl (ValueError_literal s)
         else Inr (if neg then - digits_value ds else digits_value ds))"

text \<open>\<^verbatim>\<open>os.path.join(a, b)\<close> (POSIX).\<close>

definition path_join :: "string \<Rightarrow> string \<Rightarrow> string" where
  "path_join a b =
     (if startswith b ''/'' then b
      else if a = [] \<or> endswith a ''/'' then a @ b
      else a @ ''/'' @ b)"

text \<open>
  \<^verbatim>\<open>xs[lo:hi]\<close>: a negative index counts from the end, and both indices are clamped to
  the list.
\<close>

definition slice_index :: "nat \<Rightarrow> int \<Rightarrow> nat" where
  "slice_index n i = (if i < 0 then nat (max 0 (int n + i)) else min n (nat i))"

definition py_slice :: "'a list \<Rightarrow> int \<Rightarrow> int \<Rightarrow> 'a list" where
  "py_slice xs lo hi =
     (let a = slice_index (length xs) lo; b = slice_index (length xs) hi
      in take (b - a) (drop a xs))"

text \<open>\<^verbatim>\<open>d[k] = v\<close> on a dict: an existing key keeps its place, a new key goes last.\<close>

definition dict_set :: "('k \<times> 'v) list \<Rightarrow> 'k \<Rightarrow> 'v \<Rightarrow> ('k \<times> 'v) list" where
  "dict_set d k v = AList.update k v d"

text \<open>\<^verbatim>\<open>d.get(k)\<close>: the value, or \<^verbatim>\<open>None\<close>.\<close>

definition dict_get :: "('k \<times> 'v) list \<Rightarrow> 'k \<Rightarrow> 'v option" where
  "dict_get d k = map_of d k"

subsection \<open>\<^verbatim>\<open>merge_ranges\<close>\<close>

text \<open>
  One turn of the loop: a line number beyond the end of the last range plus one opens
  a new range \<^verbatim>\<open>[ln, ln]\<close>, any other extends the last range (\<^verbatim>\<open>ranges[-1][1] = ln\<close>).
\<close>

definition merge_step :: "(int \<times> int) list \<Rightarrow> int \<Rightarrow> (int \<times> int) list" where
  "merge_step ranges ln =
     (if ranges = [] \<or> ln > snd (last ranges) + 1 then ranges @ [(ln, ln)]
      else butlast ranges @ [(fst (last ranges), ln)])"

definition merge_ranges :: "int list \<Rightarrow> (int \<times> int) list" where
  "merge_ranges lns = foldl merge_step [] (sort lns)"

subsection \<open>Coverage records\<close>

text \<open>
  A branch observation is the dict \<^verbatim>\<open>{'line', 'block', 'branch', 'hits'}\<close>; a record is
  the dict \<^verbatim>\<open>{'file', 'lines', 'functions', 'branches'}\<close>, to which the first \<^verbatim>\<open>FN:\<close>
  line adds the key \<^verbatim>\<open>'fn_defs'\<close> (\<open>fn_defs = None\<close> while the key is absent).
\<close>

record branch_obs =
  line :: int
  block :: int
  branch :: int
  hits :: int

record coverage_record =
  "file" :: string
  lines :: "(int \<times> int) list"
  "functions" :: "(string \<times> int) list"
  branches :: "branch_obs list"
  fn_defs :: "(string \<times> int) list option"

subsection \<open>\<^verbatim>\<open>parse_lcov\<close>\<close>

text \<open>
  The four field branches of the loop body, each on the text after the tag and the
  current record \<^verbatim>\<open>cur\<close> (\<open>None\<close> when no record is open). The order of the checks is
  Python's order of evaluation: in \<^verbatim>\<open>cur['lines'][int(ln)] = int(hits)\<close> the right-hand
  side comes first, then \<^verbatim>\<open>cur['lines']\<close>, then \<^verbatim>\<open>int(ln)\<close>.
\<close>

definition da_field :: "coverage_record option \<Rightarrow> string \<Rightarrow> error + coverage_record" where
  "da_field cur s =
     (case py_split CHR '','' 2 s of
        ln # hs # _ \<Rightarrow>
          bind_err (py_int hs) (\<lambda>h.
            case cur of
              None \<Rightarrow> Inl TypeError
            | Some c \<Rightarrow> bind_err (py_int ln) (\<lambda>n. Inr (c\<lparr>lines := dict_set (lines c) n h\<rparr>)))
      | _ \<Rightarrow> Inl IndexError)"

definition fn_field :: "coverage_record option \<Rightarrow> string \<Rightarrow> error + coverage_record" where
  "fn_field cur s =
     (case py_split CHR '','' 1 s of
        [fn_line_str, fn_name] \<Rightarrow>
          bind_err (py_int fn_line_str) (\<lambda>fn_line.
            case cur of
              None \<Rightarrow> Inl AttributeError
            | Some c \<Rightarrow>
                Inr (c\<lparr>fn_defs :=
                  Some (dict_set (case fn_defs c of None \<Rightarrow> [] | Some d \<Rightarrow> d) fn_name fn_line)\<rparr>))
      | _ \<Rightarrow> Inl ValueError_unpack)"

definition fnda_field :: "coverage_record option \<Rightarrow> string \<Rightarrow> error + coverage_record" where
  "fnda_field cur s =
     (case py_split CHR '','' 1 s of
        [hs, fn_name] \<Rightarrow>
          bind_err (py_int hs) (\<lambda>h.
            case cur of
              None \<Rightarrow> Inl TypeError
            | Some c \<Rightarrow> Inr (c\<lparr>functions := dict_set (functions c) fn_name h\<rparr>))
      | _ \<Rightarrow> Inl ValueError_unpack)"

definition brda_field :: "coverage_record option \<Rightarrow> string \<Rightarrow> error + coverage_record" where
  "brda_field cur s =
     (case py_split CHR '','' (length s) s of
        [l, b, br, hs] \<Rightarrow>
          (case cur of
             None \<Rightarrow> Inl TypeError
           | Some c \<Rightarrow>
               bind_err (py_int l) (\<lambda>li.
               bind_err (py_int b) (\<lambda>bi.
               bind_err (py_int br) (\<lambda>bri.
               bind_err (if hs = ''0'' \<or> hs = ''-'' then Inr 0 else py_int hs) (\<lambda>h.
                 Inr (c\<lparr>branches := branches c @
                   [\<lparr>line = li, block = bi, branch = bri, hits = h\<rparr>]\<rparr>))))))
      | _ \<Rightarrow> Inl ValueError_unpack)"

text \<open>
  The loop body on one line of the file. The state is the pair of \<^verbatim>\<open>files\<close> and \<^verbatim>\<open>cur\<close>.
  \<^verbatim>\<open>if cur:\<close> tests a dict that always has its four keys, so it is true exactly when
  a record is open.
\<close>

definition flush :: "coverage_record list \<Rightarrow> coverage_record option \<Rightarrow> coverage_record list" where
  "flush files cur = (case cur of None \<Rightarrow> files | Some c \<Rightarrow> files @ [c])"

definition parse_line ::
  "coverage_record list \<times> coverage_record option \<Rightarrow> string \<Rightarrow>
   error + coverage_record list \<times> coverage_record option" where
  "parse_line st raw =
     (let l = strip raw; files = fst st; cur = snd st in
      if startswith l ''TN:'' then Inr st
      else if startswith l ''SF:'' then
        Inr (flush files cur,
             Some \<lparr>file = drop 3 l, lines = [], functions = [], branches = [], fn_defs = None\<rparr>)
      else if startswith l ''DA:'' then
        bind_err (da_field cur (drop 3 l)) (\<lambda>c. Inr (files, Some c))
      else if startswith l ''FN:'' then
        bind_err (fn_field cur (drop 3 l)) (\<lambda>c. Inr (files, Some c))
      else if startswith l ''FNDA:'' then
        bind_err (fnda_field cur (drop 5 l)) (\<lambda>c. Inr (files, Some c))
      else if startswith l ''BRDA:'' then
        bind_err (brda_field cur (drop 5 l)) (\<lambda>c. Inr (files, Some c))
      else if l = ''end_of_record'' then Inr (flush files cur, None)
      else Inr st)"

fun parse_lines ::
  "coverage_record list \<times> coverage_record option \<Rightarrow> string list \<Rightarrow>
   error + coverage_record list \<times> coverage_record option" where
  "parse_lines st [] = Inr st"
| "parse_lines st (raw # rest) =
     (case parse_line st raw of Inl e \<Rightarrow> Inl e | Inr st' \<Rightarrow> parse_lines st' rest)"

definition parse_lcov ::
  "(string \<Rightarrow> string list option) \<Rightarrow> string \<Rightarrow> error + coverage_record list" where
  "parse_lcov fs path =
     (case fs path of
        None \<Rightarrow> Inl OSError
      | Some report \<Rightarrow>
          bind_err (parse_lines ([], None) report) (\<lambda>st. Inr (flush (fst st) (snd st))))"

subsection \<open>\<^verbatim>\<open>llm_payload_from_lcov\<close>\<close>

text \<open>
  An entry of \<^verbatim>\<open>uncovered_branches\<close> is the pair of \<^verbatim>\<open>line\<close> and \<^verbatim>\<open>branch\<close>, an entry of
  \<^verbatim>\<open>unexecuted_functions\<close> the pair of \<^verbatim>\<open>name\<close> and \<^verbatim>\<open>line\<close> (\<open>None\<close> for Python's \<^verbatim>\<open>None\<close>).
\<close>

datatype snippet =
    Lines_snippet (snippet_range: "int \<times> int") (snippet_code: string)
  | Function_snippet (snippet_name: string) (snippet_line: int) (snippet_code: string)

record payload =
  payload_file :: string
  uncovered_ranges :: "(int \<times> int) list"
  uncovered_branches :: "(int \<times> int) list"
  unexecuted_functions :: "(string \<times> int option) list"
  snippets :: "snippet list"

text \<open>
  \<open>code\<close> is the list \<^verbatim>\<open>sf.readlines()\<close>, or the empty string when the read failed; both
  an empty list and the empty string make \<^verbatim>\<open>not code\<close> true.
\<close>

definition slice_around :: "string list \<Rightarrow> int \<Rightarrow> int \<Rightarrow> int \<Rightarrow> string" where
  "slice_around code context_lines start end =
     (if code = [] then ''''
      else let lo = max 0 (start - 1 - context_lines);
               hi = min (int (length code)) (end + context_lines)
           in concat (py_slice code lo hi))"

definition function_snippets ::
  "string list \<Rightarrow> int \<Rightarrow> (string \<times> int option) list \<Rightarrow> snippet list" where
  "function_snippets code context_lines unexec_funcs =
     concat (map (\<lambda>uf. case snd uf of
                          None \<Rightarrow> []
                        | Some l \<Rightarrow> if l \<noteq> 0
                            then [Function_snippet (fst uf) l (slice_around code context_lines l (l + 1))]
                            else [])
                 unexec_funcs)"

definition build_payload ::
  "(string \<Rightarrow> string list option) \<Rightarrow> string \<Rightarrow> int \<Rightarrow> coverage_record \<Rightarrow> payload" where
  "build_payload fs repo_root context_lines f =
     (let uncovered_lines = map fst (filter (\<lambda>p. snd p = 0) (lines f));
          ranges = merge_ranges uncovered_lines;
          unexec_funcs =
            map (\<lambda>p. (fst p, dict_get (case fn_defs f of None \<Rightarrow> [] | Some d \<Rightarrow> d) (fst p)))
                (filter (\<lambda>p. snd p = 0) (functions f));
          unc_branches = map (\<lambda>br. (line br, branch br)) (filter (\<lambda>br. hits br = 0) (branches f));
          code = (case fs (path_join repo_root (file f)) of None \<Rightarrow> [] | Some ls \<Rightarrow> ls)
      in \<lparr>payload_file = file f,
          uncovered_ranges = ranges,
          uncovered_branches = unc_branches,
          unexecuted_functions = unexec_funcs,
          snippets =
            map (\<lambda>r. Lines_snippet r (slice_around code context_lines (fst r) (snd r))) ranges
            @ function_snippets code context_lines unexec_funcs\<rparr>)"

definition llm_payload_from_lcov ::
  "(string \<Rightarrow> string list option) \<Rightarrow> string \<Rightarrow> string \<Rightarrow> int \<Rightarrow> error + payload list" where
  "llm_payload_from_lcov fs lcov_path repo_root context_lines =
     bind_err (parse_lcov fs lcov_path) (\<lambda>files.
       Inr (map (build_payload fs repo_root context_lines) files))"

subsection \<open>Predicates used in the statements\<close>

text \<open>
  The line numbers a list of ranges covers; \<open>gapped\<close>: each range starts beyond the end
  of the one before it plus one, so no two adjacent ranges could be merged.
\<close>

definition covered :: "(int \<times> int) list \<Rightarrow> int set" where
  "covered rs = (\<Union>r \<in> set rs. {fst r..snd r})"

fun gapped :: "(int \<times> int) list \<Rightarrow> bool" where
  "gapped [] = True"
| "gapped [r] = True"
| "gapped (r # r' # rs) = (snd r + 1 < fst r' \<and> gapped (r' # rs))"

definition well_formed :: "(int \<times> int) list \<Rightarrow> bool" where
  "well_formed rs = ((\<forall>r \<in> set rs. fst r \<le> snd r) \<and> gapped rs)"

text \<open>
  The words of the specification for a snippet: the concatenated text of the lines
  numbered \<open>a\<close> to \<open>b\<close> (1-based, inclusive) of the file.
\<close>

definition spec_window_text :: "string list \<Rightarrow> int \<Rightarrow> int \<Rightarrow> string" where
  "spec_window_text code a b = concat (map (\<lambda>i. code ! nat (i - 1)) [a..b])"

text \<open>
  The words of the specification for a line \<^verbatim>\<open>DA:<line>,<hits>[,...]\<close>: the pair of
  integers it reports, if it is such a line; \<open>spec_da_entries\<close> are the pairs of the
  lines of a section, in report order.
\<close>

definition spec_da_entry :: "string \<Rightarrow> (int \<times> int) option" where
  "spec_da_entry raw =
     (let l = strip raw in
      if startswith l ''DA:'' then
        (case py_split CHR '','' 2 (drop 3 l) of
           ln # hs # _ \<Rightarrow>
             (case py_int ln of
                Inl _ \<Rightarrow> None
              | Inr n \<Rightarrow> (case py_int hs of Inl _ \<Rightarrow> None | Inr h \<Rightarrow> Some (n, h)))
         | _ \<Rightarrow> None)
      else None)"

definition spec_da_entries :: "string list \<Rightarrow> (int \<times> int) list" where
  "spec_da_entries body = List.map_filter spec_da_entry body"

text \<open>Storing a list of pairs into a dict, first to last.\<close>

definition set_entries :: "(int \<times> int) list \<Rightarrow> (int \<times> int) list \<Rightarrow> (int \<times> int) list" where
  "set_entries d es = foldl (\<lambda>d p. dict_set d (fst p) (snd p)) d es"



text \<open>The record that a line \<^verbatim>\<open>SF:p\<close> opens.\<close>

definition empty_record :: "string \<Rightarrow> coverage_record" where
  "empty_record p = \<lparr>file = p, lines = [], functions = [], branches = [], fn_defs = None\<rparr>"

subsection \<open>Example reports and files\<close>

text \<open>
  File systems with a report at \<^verbatim>\<open>lcov.info\<close> (and source files where an example reads
  one), and the records \<^verbatim>\<open>parse_lcov\<close> returns for them.
\<close>

definition fs_brda :: "string \<Rightarrow> string list option" where
  "fs_brda p = (if p = ''lcov.info''
     then Some [''SF:a.c'', ''BRDA:10,0,0,-'', ''BRDA:10,0,1,3'', ''BRDA:11,2,1,0'', ''end_of_record'']
     else None)"

definition fs_fn :: "string \<Rightarrow> string list option" where
  "fs_fn p =
     (if p = ''lcov.info'' then
        Some [''SF:a.c'', ''FN:0,f'', ''FN:2,g'', ''FNDA:0,f'', ''FNDA:0,foo'', ''FNDA:0,g'',
              ''end_of_record'']
      else if p = ''./a.c'' then Some [''one'', ''two'', ''three'']
      else None)"

definition rec_fn :: coverage_record where
  "rec_fn = \<lparr>file = ''a.c'', lines = [], functions = [(''f'', 0), (''foo'', 0), (''g'', 0)],
              branches = [], fn_defs = Some [(''f'', 0), (''g'', 2)]\<rparr>"

definition fs_two :: "string \<Rightarrow> string list option" where
  "fs_two p =
     (if p = ''lcov.info'' then
        Some [''SF:gone.c'', ''DA:1,0'', ''DA:2,0'', ''DA:4,0'', ''FN:1,f'', ''FNDA:0,f'',
              ''BRDA:1,0,0,-'', ''end_of_record'',
              ''SF:b.c'', ''DA:1,1'', ''DA:2,0'', ''end_of_record'']
      else if p = ''./b.c'' then Some [''x'', ''y'']
      else None)"

definition rec_gone :: coverage_record where
  "rec_gone = \<lparr>file = ''gone.c'', lines = [(1, 0), (2, 0), (4, 0)], functions = [(''f'', 0)],
                branches = [\<lparr>line = 1, block = 0, branch = 0, hits = 0\<rparr>],
                fn_defs = Some [(''f'', 1)]\<rparr>"

definition rec_b :: coverage_record where
  "rec_b = \<lparr>file = ''b.c'', lines = [(1, 1), (2, 0)], functions = [], branches = [],
             fn_defs = None\<rparr>"

definition fs_sections :: "string \<Rightarrow> string list option" where
  "fs_sections p =
     (if p = ''lcov.info'' then
        Some [''TN:'', ''SF:a.c'', ''DA:1,1'', ''DA:2,0'', ''SF:b.c'', ''DA:7,0'', ''FNDA:3,g'']
      else None)"

definition rec_sections_a :: coverage_record where
  "rec_sections_a = \<lparr>file = ''a.c'', lines = [(1, 1), (2, 0)], functions = [], branches = [],
                      fn_defs = None\<rparr>"

definition rec_sections_b :: coverage_record where
  "rec_sections_b = \<lparr>file = ''b.c'', lines = [(7, 0)], functions = [(''g'', 3)], branches = [],
                      fn_defs = None\<rparr>"

definition fs_round_trip :: "string \<Rightarrow> string list option" where
  "fs_round_trip p =
     (if p = ''lcov.info'' then
        Some [''SF:a.c'', ''DA:1,1'', ''end_of_record'',
              ''SF:b.c'', ''DA:3,1'', ''DA:1,0,abc'', ''FN:1,f'', '' DA:2,5 '', ''end_of_record'']
      else None)"

definition rec_round_trip_a :: coverage_record where
  "rec_round_trip_a = \<lparr>file = ''a.c'', lines = [(1, 1)], functions = [], branches = [],
                        fn_defs = None\<rparr>"

definition rec_round_trip_b :: coverage_record where
  "rec_round_trip_b = \<lparr>file = ''b.c'', lines = [(3, 1), (1, 0), (2, 5)], functions = [],
                        branches = [], fn_defs = Some [(''f'', 1)]\<rparr>"

definition fs_stray :: "string list \<Rightarrow> string \<Rightarrow> string list option" where
  "fs_stray report p = (if p = ''lcov.info'' then Some report else None)"



section \<open>Properties\<close>

subsection \<open>\<^verbatim>\<open>merge_ranges\<close>\<close>

lemma gapped_snoc:
  "gapped (rs @ [r]) = (gapped rs \<and> (rs = [] \<or> snd (last rs) + 1 < fst r))"
  by (induction rs rule: gapped.induct) auto

lemma covered_snoc: "covered (rs @ [r]) = covered rs \<union> {fst r..snd r}"
  by (auto simp: covered_def)

lemma merge_step_inv:
  assumes "well_formed rs" and "rs \<noteq> [] \<Longrightarrow> snd (last rs) \<le> ln"
  shows "well_formed (merge_step rs ln)"
    and "covered (merge_step rs ln) = insert ln (covered rs)"
    and "snd (last (merge_step rs ln)) = ln"
    and "merge_step rs ln \<noteq> []"
proof -
  show "snd (last (merge_step rs ln)) = ln" and "merge_step rs ln \<noteq> []"
    by (simp_all add: merge_step_def)
  show "well_formed (merge_step rs ln)"
  proof (cases "rs = [] \<or> ln > snd (last rs) + 1")
    case True
    then show ?thesis using assms(1)
      by (auto simp: merge_step_def well_formed_def gapped_snoc)
  next
    case False
    then obtain bs s e where rs: "rs = bs @ [(s, e)]"
      by (metis append_butlast_last_id surj_pair)
    with False assms have "e \<le> ln" "s \<le> e" by (auto simp: well_formed_def)
    with rs False assms(1) show ?thesis
      by (auto simp: merge_step_def well_formed_def gapped_snoc)
  qed
  show "covered (merge_step rs ln) = insert ln (covered rs)"
  proof (cases "rs = [] \<or> ln > snd (last rs) + 1")
    case True
    then show ?thesis by (auto simp: merge_step_def covered_snoc)
  next
    case False
    then obtain bs s e where rs: "rs = bs @ [(s, e)]"
      by (metis append_butlast_last_id surj_pair)
    with False assms have "e \<le> ln" "ln \<le> e + 1" "s \<le> e" by (auto simp: well_formed_def)
    then have "{s..ln} = insert ln {s..e}" by auto
    with rs False show ?thesis by (simp add: merge_step_def covered_snoc)
  qed
qed

lemma foldl_merge_step:
  assumes "sorted xs" and "well_formed rs"
    and "rs \<noteq> [] \<Longrightarrow> \<forall>x \<in> set xs. snd (last rs) \<le> x"
  shows "well_formed (foldl merge_step rs xs) \<and>
         covered (foldl merge_step rs xs) = covered rs \<union> set xs"
  using assms
proof (induction xs arbitrary: rs)
  case Nil
  then show ?case by simp
next
  case (Cons x xs)
  have a: "rs \<noteq> [] \<Longrightarrow> snd (last rs) \<le> x" using Cons.prems(3) by simp
  note st = merge_step_inv[OF Cons.prems(2) a]
  have "\<forall>y \<in> set xs. snd (last (merge_step rs x)) \<le> y"
    using Cons.prems(1) st(3) by simp
  with Cons.IH[of "merge_step rs x"] Cons.prems(1) st(1)
  have "well_formed (foldl merge_step (merge_step rs x) xs) \<and>
        covered (foldl merge_step (merge_step rs x) xs) = covered (merge_step rs x) \<union> set xs"
    by simp
  then show ?case by (simp add: st(2))
qed

lemma merge_ranges_well_formed:
  "well_formed (merge_ranges lns)" "covered (merge_ranges lns) = set lns"
  using foldl_merge_step[of "sort lns" "[]"]
  by (simp_all add: merge_ranges_def well_formed_def covered_def)

lemma gapped_nth:
  "gapped rs \<Longrightarrow> Suc i < length rs \<Longrightarrow> snd (rs ! i) + 1 < fst (rs ! Suc i)"
proof (induction rs arbitrary: i rule: gapped.induct)
  case (3 r r' rs)
  then show ?case by (cases i) auto
qed simp_all

lemma well_formed_sorted_wrt:
  "well_formed rs \<Longrightarrow> sorted_wrt (\<lambda>a b. snd a + 1 < fst b) rs"
proof (induction rs rule: gapped.induct)
  case (3 r r' rs)
  then have wf: "well_formed (r' # rs)" and g: "snd r + 1 < fst r'" and le: "fst r' \<le> snd r'"
    by (auto simp: well_formed_def)
  from 3 wf have sw: "sorted_wrt (\<lambda>a b. snd a + 1 < fst b) (r' # rs)" by simp
  then have "\<forall>b \<in> set rs. snd r' + 1 < fst b" by simp
  with g le have "\<forall>b \<in> set (r' # rs). snd r + 1 < fst b" by auto
  with sw show ?case by simp
qed simp_all

text \<open>
  C1. For every collection of integer line numbers (so also for every finite set of
  non-negative ones), the list \<^verbatim>\<open>merge_ranges\<close> returns is sorted ascending by start,
  its ranges are pairwise disjoint, every range has start \<open>\<le>\<close> end, no two adjacent
  ranges satisfy next start \<open>\<le>\<close> previous end + 1, and the line numbers the ranges
  cover are exactly the input; the empty input gives the empty list.
\<close>

theorem merge_ranges_correct:
  "sorted_wrt (<) (map fst (merge_ranges lns)) \<and>
   (\<forall>i j. i < j \<and> j < length (merge_ranges lns) \<longrightarrow>
      {fst (merge_ranges lns ! i)..snd (merge_ranges lns ! i)} \<inter>
      {fst (merge_ranges lns ! j)..snd (merge_ranges lns ! j)} = {}) \<and>
   (\<forall>r \<in> set (merge_ranges lns). fst r \<le> snd r) \<and>
   (\<forall>i. Suc i < length (merge_ranges lns) \<longrightarrow>
      \<not> fst (merge_ranges lns ! Suc i) \<le> snd (merge_ranges lns ! i) + 1) \<and>
   (\<Union>r \<in> set (merge_ranges lns). {fst r..snd r}) = set lns \<and>
   merge_ranges [] = []"
proof -
  let ?rs = "merge_ranges lns"
  have wf: "well_formed ?rs" and cov: "covered ?rs = set lns"
    by (rule merge_ranges_well_formed)+
  have sw: "sorted_wrt (\<lambda>a b. snd a + 1 < fst b) ?rs"
    by (rule well_formed_sorted_wrt[OF wf])
  have le: "\<forall>r \<in> set ?rs. fst r \<le> snd r" using wf by (simp add: well_formed_def)
  have "sorted_wrt (\<lambda>a b. fst a < fst b) ?rs"
    by (rule sorted_wrt_mono_rel[OF _ sw]) (use le in force)
  then have 1: "sorted_wrt (<) (map fst ?rs)" by (simp add: sorted_wrt_map)
  have 2: "{fst (?rs ! i)..snd (?rs ! i)} \<inter> {fst (?rs ! j)..snd (?rs ! j)} = {}"
    if "i < j \<and> j < length ?rs" for i j
  proof -
    from that sw have "snd (?rs ! i) + 1 < fst (?rs ! j)"
      by (simp add: sorted_wrt_iff_nth_less)
    then show ?thesis by auto
  qed
  have 4: "\<not> fst (?rs ! Suc i) \<le> snd (?rs ! i) + 1" if "Suc i < length ?rs" for i
    using gapped_nth[OF _ that] wf by (simp add: well_formed_def)
  have 6: "merge_ranges [] = []" by (simp add: merge_ranges_def)
  from 1 2 le 4 cov 6 show ?thesis unfolding covered_def by blast
qed

theorem merge_ranges_correct_witness:
  "merge_ranges [5, 1, 2, 9, 3, 10] = [(1, 3), (5, 5), (9, 10)] \<and>
   sorted_wrt (<) (map fst (merge_ranges [5, 1, 2, 9, 3, 10])) \<and>
   (\<Union>r \<in> set (merge_ranges [5, 1, 2, 9, 3, 10]). {fst r..snd r}) = set [5, 1, 2, 9, 3, 10]"
proof -
  have ev: "merge_ranges [5, 1, 2, 9, 3, 10] = [(1, 3), (5, 5), (9, 10)]"
    by (simp add: merge_ranges_def merge_step_def)
  from merge_ranges_correct[of "[5, 1, 2, 9, 3, 10]"] ev show ?thesis
    by (intro conjI) (elim conjE, assumption)+
qed

subsection \<open>\<^verbatim>\<open>slice_around\<close>\<close>

lemma py_slice_window:
  assumes "0 \<le> lo" and "0 \<le> hi" and "hi \<le> int (length xs)"
  shows "py_slice xs lo hi = map (\<lambda>i. xs ! nat (i - 1)) [lo + 1..hi]"
proof (rule nth_equalityI)
  show "length (py_slice xs lo hi) = length (map (\<lambda>i. xs ! nat (i - 1)) [lo + 1..hi])"
    using assms by (auto simp: py_slice_def slice_index_def Let_def)
next
  fix k assume "k < length (py_slice xs lo hi)"
  with assms have k: "int k < hi - lo" "nat lo + k < length xs"
    by (auto simp: py_slice_def slice_index_def Let_def)
  with assms have "py_slice xs lo hi ! k = xs ! (nat lo + k)"
    by (simp add: py_slice_def slice_index_def Let_def min_def)
  moreover from k assms have "map (\<lambda>i. xs ! nat (i - 1)) [lo + 1..hi] ! k = xs ! (nat lo + k)"
    by (simp add: nat_add_distrib)
  ultimately show "py_slice xs lo hi ! k = map (\<lambda>i. xs ! nat (i - 1)) [lo + 1..hi] ! k"
    by simp
qed

lemma slice_around_window:
  assumes "0 \<le> e + C"
  shows "slice_around code C s e =
         spec_window_text code (max 1 (s - C)) (min (int (length code)) (e + C))"
proof (cases "code = []")
  case True
  then show ?thesis by (simp add: slice_around_def spec_window_text_def)
next
  case False
  have "max 0 (s - 1 - C) + 1 = max 1 (s - C)" by simp
  with py_slice_window[of "max 0 (s - 1 - C)" "min (int (length code)) (e + C)" code] assms False
  show ?thesis by (simp add: slice_around_def spec_window_text_def Let_def)
qed

text \<open>
  C7. For every source file and every target span \<open>[s, e]\<close> with \<open>0 \<le> e + C\<close> (so for
  every 1-based span and every context window \<open>C \<ge> 0\<close>), the snippet is exactly the
  concatenated text of the lines \<open>max 1 (s - C)\<close> to \<open>min lastLine (e + C)\<close> of the file;
  for \<open>C = 40\<close> and the span \<open>[5, 5]\<close> in a 10-line file, the snippet is lines 1 to 10.
\<close>

theorem slice_around_clipped_window:
  "(0 \<le> e + C \<longrightarrow>
      slice_around code C s e =
      spec_window_text code (max 1 (s - C)) (min (int (length code)) (e + C))) \<and>
   (length code = 10 \<longrightarrow> slice_around code 40 5 5 = spec_window_text code 1 10)"
  using slice_around_window[of e C code s] slice_around_window[of 5 40 code 5] by simp

theorem slice_around_clipped_window_witness:
  "(0::int) \<le> 5 + 40 \<and>
   length [''a'', ''b'', ''c'', ''d'', ''e'', ''f'', ''g'', ''h'', ''i'', ''j''] = 10 \<and>
   slice_around [''a'', ''b'', ''c'', ''d'', ''e'', ''f'', ''g'', ''h'', ''i'', ''j''] 40 5 5 =
     ''abcdefghij'' \<and>
   spec_window_text [''a'', ''b'', ''c'', ''d'', ''e'', ''f'', ''g'', ''h'', ''i'', ''j'']
     (max 1 (5 - 40)) (min 10 (5 + 40)) = ''abcdefghij''"
  using slice_around_clipped_window
    [of 5 40 "[''a'', ''b'', ''c'', ''d'', ''e'', ''f'', ''g'', ''h'', ''i'', ''j'']" 5]
  by (simp add: spec_window_text_def upto.simps)

subsection \<open>Splitting and the field lines\<close>

lemma py_split_no_sep: "sep \<notin> set s \<Longrightarrow> py_split sep n s = [s]"
proof (induction s arbitrary: n)
  case Nil
  then show ?case by simp
next
  case (Cons c cs)
  then show ?case by (cases n) auto
qed

lemma py_split_numeral:
  "py_split sep (numeral k) (c # cs) =
     (if c = sep then [] # py_split sep (pred_numeral k) cs
      else (case py_split sep (numeral k) cs of [] \<Rightarrow> [[c]] | p # ps \<Rightarrow> (c # p) # ps))"
  by (simp add: numeral_eq_Suc)

lemma py_split_first:
  "sep \<notin> set a \<Longrightarrow> py_split sep (Suc n) (a @ sep # rest) = a # py_split sep n rest"
  by (induction a) auto

lemma py_split_four:
  assumes "sep \<notin> set a" "sep \<notin> set b" "sep \<notin> set c" "sep \<notin> set d" "3 \<le> n"
  shows "py_split sep n (a @ sep # b @ sep # c @ sep # d) = [a, b, c, d]"
proof -
  from assms(5) obtain k where n: "n = Suc (Suc (Suc k))"
    by (metis Suc_le_D numeral_3_eq_3 Suc_le_mono)
  show ?thesis using assms(1-4) by (simp add: n py_split_first py_split_no_sep)
qed

lemma parse_line_brda:
  assumes raw: "strip raw = ''BRDA:'' @ l @ '','' @ b @ '','' @ br @ '','' @ hs"
    and nc: "CHR '','' \<notin> set l" "CHR '','' \<notin> set b" "CHR '','' \<notin> set br" "CHR '','' \<notin> set hs"
    and ints: "py_int l = Inr li" "py_int b = Inr bi" "py_int br = Inr bri"
    and h: "(if hs = ''0'' \<or> hs = ''-'' then Inr 0 else py_int hs) = Inr h"
  shows "parse_line (files, Some c) raw =
         Inr (files, Some (c\<lparr>branches := branches c @
                [\<lparr>line = li, block = bi, branch = bri, hits = h\<rparr>]\<rparr>))"
proof -
  have sp: "py_split CHR '','' (length (l @ '','' @ b @ '','' @ br @ '','' @ hs))
              (l @ '','' @ b @ '','' @ br @ '','' @ hs) = [l, b, br, hs]"
    using py_split_four[OF nc, of "length (l @ '','' @ b @ '','' @ br @ '','' @ hs)"] by simp
  have "brda_field (Some c) (l @ '','' @ b @ '','' @ br @ '','' @ hs) =
        Inr (c\<lparr>branches := branches c @ [\<lparr>line = li, block = bi, branch = bri, hits = h\<rparr>]\<rparr>)"
    unfolding brda_field_def sp using ints h by (simp add: bind_err_def)
  then show ?thesis
    by (simp add: parse_line_def raw startswith_def bind_err_def)
qed

subsection \<open>Branches\<close>

text \<open>
  C5. While a record is open, a line \<^verbatim>\<open>BRDA:<line>,<block>,<branch>,<hits>\<close> whose
  \<^verbatim>\<open><hits>\<close> is \<^verbatim>\<open>-\<close> or \<^verbatim>\<open>0\<close> stores a branch observation with hit count 0, and the
  \<^verbatim>\<open>uncovered_branches\<close> of the record gains the pair of line and branch at its end; with
  \<^verbatim>\<open><hits>\<close> a non-zero integer, the observation is stored with that count and
  \<^verbatim>\<open>uncovered_branches\<close> is unchanged. \<^verbatim>\<open>uncovered_branches\<close> lists the zero-hit
  observations in report order, the block index dropped.
\<close>

theorem brda_uncovered_branches:
  assumes "strip raw = ''BRDA:'' @ l @ '','' @ b @ '','' @ br @ '','' @ hs"
    and "CHR '','' \<notin> set l" "CHR '','' \<notin> set b" "CHR '','' \<notin> set br" "CHR '','' \<notin> set hs"
    and "py_int l = Inr li" "py_int b = Inr bi" "py_int br = Inr bri"
  shows "(hs = ''-'' \<or> hs = ''0'' \<longrightarrow>
            (\<exists>c'. parse_line (files, Some c) raw = Inr (files, Some c') \<and>
              branches c' = branches c @ [\<lparr>line = li, block = bi, branch = bri, hits = 0\<rparr>] \<and>
              uncovered_branches (build_payload fs repo_root C c') =
              uncovered_branches (build_payload fs repo_root C c) @ [(li, bri)])) \<and>
         (py_int hs = Inr h \<and> h \<noteq> 0 \<longrightarrow>
            (\<exists>c'. parse_line (files, Some c) raw = Inr (files, Some c') \<and>
              branches c' = branches c @ [\<lparr>line = li, block = bi, branch = bri, hits = h\<rparr>] \<and>
              uncovered_branches (build_payload fs repo_root C c') =
              uncovered_branches (build_payload fs repo_root C c))) \<and>
         uncovered_branches (build_payload fs repo_root C c) =
           map (\<lambda>br. (line br, branch br)) (filter (\<lambda>br. hits br = 0) (branches c))"
proof (intro conjI impI)
  assume "hs = ''-'' \<or> hs = ''0''"
  then have "(if hs = ''0'' \<or> hs = ''-'' then Inr 0 else py_int hs) = Inr 0" by auto
  from parse_line_brda[OF assms this, of files c]
  show "\<exists>c'. parse_line (files, Some c) raw = Inr (files, Some c') \<and>
          branches c' = branches c @ [\<lparr>line = li, block = bi, branch = bri, hits = 0\<rparr>] \<and>
          uncovered_branches (build_payload fs repo_root C c') =
          uncovered_branches (build_payload fs repo_root C c) @ [(li, bri)]"
    by (simp add: build_payload_def Let_def)
next
  assume a: "py_int hs = Inr h \<and> h \<noteq> 0"
  then have "(if hs = ''0'' \<or> hs = ''-'' then Inr 0 else py_int hs) = Inr h \<or> hs = ''0'' \<or> hs = ''-''"
    by auto
  moreover have "py_int ''0'' = Inr 0" "py_int ''-'' = Inl (ValueError_literal ''-'')"
    by (simp_all add: py_int_def is_int_space_def startswith_def is_digit_def digits_value_def digit_val_def)
  ultimately have "(if hs = ''0'' \<or> hs = ''-'' then Inr 0 else py_int hs) = Inr h"
    using a by auto
  from parse_line_brda[OF assms this, of files c] a
  show "\<exists>c'. parse_line (files, Some c) raw = Inr (files, Some c') \<and>
          branches c' = branches c @ [\<lparr>line = li, block = bi, branch = bri, hits = h\<rparr>] \<and>
          uncovered_branches (build_payload fs repo_root C c') =
          uncovered_branches (build_payload fs repo_root C c)"
    by (simp add: build_payload_def Let_def)
next
  show "uncovered_branches (build_payload fs repo_root C c) =
        map (\<lambda>br. (line br, branch br)) (filter (\<lambda>br. hits br = 0) (branches c))"
    by (simp add: build_payload_def Let_def)
qed

lemmas eval_simps = llm_payload_from_lcov_def parse_lcov_def parse_line_def
  da_field_def fn_field_def fnda_field_def brda_field_def bind_err_def flush_def
  build_payload_def function_snippets_def slice_around_def py_slice_def slice_index_def
  path_join_def startswith_def endswith_def strip_def is_space_def
  py_int_def is_int_space_def is_digit_def digits_value_def digit_val_def
  dict_set_def dict_get_def merge_ranges_def merge_step_def Let_def py_split_numeral

theorem brda_uncovered_branches_witness:
  "strip ''BRDA:10,0,0,-'' = ''BRDA:'' @ ''10'' @ '','' @ ''0'' @ '','' @ ''0'' @ '','' @ ''-'' \<and>
   strip ''BRDA:10,0,1,3'' = ''BRDA:'' @ ''10'' @ '','' @ ''0'' @ '','' @ ''1'' @ '','' @ ''3'' \<and>
   py_int ''10'' = Inr 10 \<and> py_int ''0'' = Inr 0 \<and> py_int ''1'' = Inr 1 \<and> py_int ''3'' = Inr 3 \<and>
   (\<exists>c'. parse_line ([], Some (empty_record ''a.c'')) ''BRDA:10,0,0,-'' = Inr ([], Some c') \<and>
      branches c' = [\<lparr>line = 10, block = 0, branch = 0, hits = 0\<rparr>] \<and>
      uncovered_branches (build_payload fs_brda ''.'' 40 c') = [(10, 0)]) \<and>
   (\<exists>c'. parse_line ([], Some (empty_record ''a.c'')) ''BRDA:10,0,1,3'' = Inr ([], Some c') \<and>
      branches c' = [\<lparr>line = 10, block = 0, branch = 1, hits = 3\<rparr>] \<and>
      uncovered_branches (build_payload fs_brda ''.'' 40 c') = []) \<and>
   map uncovered_branches (projr (llm_payload_from_lcov fs_brda ''lcov.info'' ''.'' 40)) =
     [[(10, 0), (11, 1)]]"
proof -
  have s1: "strip ''BRDA:10,0,0,-'' = ''BRDA:'' @ ''10'' @ '','' @ ''0'' @ '','' @ ''0'' @ '','' @ ''-''"
    and s2: "strip ''BRDA:10,0,1,3'' = ''BRDA:'' @ ''10'' @ '','' @ ''0'' @ '','' @ ''1'' @ '','' @ ''3''"
    by (simp_all add: strip_def is_space_def)
  have i10: "py_int ''10'' = Inr 10" and i0: "py_int ''0'' = Inr 0"
    and i1: "py_int ''1'' = Inr 1" and i3: "py_int ''3'' = Inr 3"
    by (simp_all add: py_int_def is_int_space_def startswith_def is_digit_def
        digits_value_def digit_val_def)
  have e: "uncovered_branches (build_payload fs_brda ''.'' 40 (empty_record ''a.c'')) = []"
    by (simp add: build_payload_def empty_record_def Let_def)
  have br0: "branches (empty_record ''a.c'') = []"
    by (simp add: empty_record_def)
  have w: "map uncovered_branches (projr (llm_payload_from_lcov fs_brda ''lcov.info'' ''.'' 40)) =
     [[(10, 0), (11, 1)]]"
    by (simp add: fs_brda_def eval_simps)
  have a: "\<exists>c'. parse_line ([], Some (empty_record ''a.c'')) ''BRDA:10,0,0,-'' = Inr ([], Some c') \<and>
      branches c' = [\<lparr>line = 10, block = 0, branch = 0, hits = 0\<rparr>] \<and>
      uncovered_branches (build_payload fs_brda ''.'' 40 c') = [(10, 0)]"
    using brda_uncovered_branches[OF s1 _ _ _ _ i10 i0 i0,
        of "[]" "empty_record ''a.c''" fs_brda "''.''" 40 0] e br0
    by auto
  have b: "\<exists>c'. parse_line ([], Some (empty_record ''a.c'')) ''BRDA:10,0,1,3'' = Inr ([], Some c') \<and>
      branches c' = [\<lparr>line = 10, block = 0, branch = 1, hits = 3\<rparr>] \<and>
      uncovered_branches (build_payload fs_brda ''.'' 40 c') = []"
    using brda_uncovered_branches[OF s2 _ _ _ _ i10 i0 i1,
        of "[]" "empty_record ''a.c''" fs_brda "''.''" 40 3] e i3 br0
    by auto
  from s1 s2 i10 i0 i1 i3 a b w show ?thesis by (intro conjI)
qed

subsection \<open>Unexecuted functions\<close>

lemma function_snippets_name:
  "Function_snippet n l c \<in> set (function_snippets code C ufs) \<Longrightarrow> (n, Some l) \<in> set ufs \<and> l \<noteq> 0"
  by (auto simp: function_snippets_def split: option.splits if_splits)

lemma snippets_function:
  "Function_snippet n l c \<in> set (snippets (build_payload fs repo_root C f)) \<Longrightarrow>
   (n, Some l) \<in> set (unexecuted_functions (build_payload fs repo_root C f)) \<and> l \<noteq> 0"
  by (auto simp: build_payload_def Let_def dest: function_snippets_name)

lemma unexecuted_functions_entry:
  "(n, 0) \<in> set (functions f) \<Longrightarrow>
   (n, dict_get (case fn_defs f of None \<Rightarrow> [] | Some d \<Rightarrow> d) n)
     \<in> set (unexecuted_functions (build_payload fs repo_root C f))"
  by (force simp: build_payload_def Let_def)

lemma unexecuted_functions_line:
  "(n, l) \<in> set (unexecuted_functions (build_payload fs repo_root C f)) \<Longrightarrow>
   l = dict_get (case fn_defs f of None \<Rightarrow> [] | Some d \<Rightarrow> d) n"
  by (auto simp: build_payload_def Let_def)

text \<open>
  C6. For every record in which \<^verbatim>\<open>foo\<close> has hit count 0 (\<^verbatim>\<open>FNDA:0,foo\<close>) and
  no definition line (no \<^verbatim>\<open>FN:\<close> line for it), the payload lists \<^verbatim>\<open>foo\<close> in
  \<^verbatim>\<open>unexecuted_functions\<close> with line \<^verbatim>\<open>None\<close>, and no function snippet is made for it.
\<close>

theorem missing_function_line:
  assumes "(foo, 0) \<in> set (functions f)"
    and "dict_get (case fn_defs f of None \<Rightarrow> [] | Some d \<Rightarrow> d) foo = None"
  shows "(foo, None) \<in> set (unexecuted_functions (build_payload fs repo_root C f)) \<and>
         (\<forall>l c. Function_snippet foo l c \<notin> set (snippets (build_payload fs repo_root C f)))"
proof -
  have "(foo, None) \<in> set (unexecuted_functions (build_payload fs repo_root C f))"
    using unexecuted_functions_entry[OF assms(1), of fs repo_root C] assms(2) by simp
  moreover have "Function_snippet foo l c \<notin> set (snippets (build_payload fs repo_root C f))" for l c
    using snippets_function[of foo l c fs repo_root C f]
      unexecuted_functions_line[of foo "Some l" fs repo_root C f] assms(2) by auto
  ultimately show ?thesis by blast
qed

text \<open>
  C10. For every record in which the function has hit count 0 (\<^verbatim>\<open>FNDA:0,f\<close>) and
  the definition line 0 (\<^verbatim>\<open>FN:0,f\<close>), the payload lists it in \<^verbatim>\<open>unexecuted_functions\<close> with
  line 0, and no function snippet is made for it: \<^verbatim>\<open>if uf['line']\<close> is false for 0 as
  it is for \<^verbatim>\<open>None\<close>.
\<close>

theorem zero_definition_line:
  assumes "(f_name, 0) \<in> set (functions f)"
    and "fn_defs f = Some d" and "dict_get d f_name = Some 0"
  shows "(f_name, Some 0) \<in> set (unexecuted_functions (build_payload fs repo_root C f)) \<and>
         (\<forall>l c. Function_snippet f_name l c \<notin> set (snippets (build_payload fs repo_root C f)))"
proof -
  have "(f_name, Some 0) \<in> set (unexecuted_functions (build_payload fs repo_root C f))"
    using unexecuted_functions_entry[OF assms(1), of fs repo_root C] assms(2,3) by simp
  moreover have "Function_snippet f_name l c \<notin> set (snippets (build_payload fs repo_root C f))" for l c
    using snippets_function[of f_name l c fs repo_root C f]
      unexecuted_functions_line[of f_name "Some l" fs repo_root C f] assms(2,3) by auto
  ultimately show ?thesis by blast
qed

lemma parse_fs_fn:
  "parse_lcov fs_fn ''lcov.info'' =
   Inr [\<lparr>file = ''a.c'', lines = [], functions = [(''f'', 0), (''foo'', 0), (''g'', 0)],
         branches = [], fn_defs = Some [(''f'', 0), (''g'', 2)]\<rparr>]"
  by (simp add: fs_fn_def eval_simps)

lemma payload_fs_fn:
  "llm_payload_from_lcov fs_fn ''lcov.info'' ''.'' 40 =
   Inr [\<lparr>payload_file = ''a.c'', uncovered_ranges = [], uncovered_branches = [],
         unexecuted_functions = [(''f'', Some 0), (''foo'', None), (''g'', Some 2)],
         snippets = [Function_snippet ''g'' 2 ''onetwothree'']\<rparr>]"
  by (simp add: fs_fn_def eval_simps)

theorem missing_function_line_witness:
  "parse_lcov fs_fn ''lcov.info'' = Inr [rec_fn] \<and>
   (''foo'', 0) \<in> set (functions rec_fn) \<and>
   dict_get (case fn_defs rec_fn of None \<Rightarrow> [] | Some d \<Rightarrow> d) ''foo'' = None \<and>
   (''foo'', None) \<in> set (unexecuted_functions (build_payload fs_fn ''.'' 40 rec_fn)) \<and>
   Function_snippet ''foo'' 1 ''onetwothree'' \<notin> set (snippets (build_payload fs_fn ''.'' 40 rec_fn)) \<and>
   snippets (build_payload fs_fn ''.'' 40 rec_fn) = [Function_snippet ''g'' 2 ''onetwothree'']"
proof -
  have p: "parse_lcov fs_fn ''lcov.info'' = Inr [rec_fn]"
    by (simp add: parse_fs_fn rec_fn_def)
  have h1: "(''foo'', 0) \<in> set (functions rec_fn)"
    by (simp add: rec_fn_def)
  have h2: "dict_get (case fn_defs rec_fn of None \<Rightarrow> [] | Some d \<Rightarrow> d) ''foo'' = None"
    by (simp add: rec_fn_def dict_get_def)
  have s: "snippets (build_payload fs_fn ''.'' 40 rec_fn) = [Function_snippet ''g'' 2 ''onetwothree'']"
    using payload_fs_fn by (simp add: llm_payload_from_lcov_def p bind_err_def)
  from missing_function_line[OF h1 h2, of fs_fn "''.''" 40] p h1 h2 s show ?thesis
    by blast
qed

theorem zero_definition_line_witness:
  "parse_lcov fs_fn ''lcov.info'' = Inr [rec_fn] \<and>
   (''f'', 0) \<in> set (functions rec_fn) \<and>
   fn_defs rec_fn = Some [(''f'', 0), (''g'', 2)] \<and>
   dict_get [(''f'', 0), (''g'', 2)] ''f'' = Some (0::int) \<and>
   (''f'', Some 0) \<in> set (unexecuted_functions (build_payload fs_fn ''.'' 40 rec_fn)) \<and>
   Function_snippet ''f'' 0 ''one'' \<notin> set (snippets (build_payload fs_fn ''.'' 40 rec_fn))"
proof -
  have p: "parse_lcov fs_fn ''lcov.info'' = Inr [rec_fn]"
    by (simp add: parse_fs_fn rec_fn_def)
  have h1: "(''f'', 0) \<in> set (functions rec_fn)"
    by (simp add: rec_fn_def)
  have h2: "fn_defs rec_fn = Some [(''f'', 0), (''g'', 2)]"
    by (simp add: rec_fn_def)
  have h3: "dict_get [(''f'', 0), (''g'', 2)] ''f'' = Some (0::int)"
    by (simp add: dict_get_def)
  from zero_definition_line[OF h1 h2 h3, of fs_fn "''.''" 40] p h1 h2 h3 show ?thesis
    by blast
qed

subsection \<open>Unreadable source files\<close>

lemma slice_around_unreadable: "slice_around [] C s e = []"
  by (simp add: slice_around_def)

lemma function_snippets_unreadable:
  "s \<in> set (function_snippets [] C ufs) \<Longrightarrow> snippet_code s = []"
  by (auto simp: function_snippets_def slice_around_unreadable split: option.splits if_splits)

lemma length_function_snippets:
  "length (function_snippets code C ufs) = length (function_snippets code' C ufs)"
  by (induction ufs) (auto simp: function_snippets_def split: option.splits)

text \<open>
  C8. For every record of a parsed report whose source file cannot be read, the run
  still returns one payload per record, in order; every snippet of that record has the
  empty string as its code; its uncovered ranges, uncovered branches and unexecuted
  functions are those of the record, and it has as many snippets as with any other
  file system \<open>fs'\<close> (one where the file is readable, say).
\<close>

theorem source_unavailable:
  assumes "parse_lcov fs lcov_path = Inr files" and "f \<in> set files"
    and "fs (path_join repo_root (file f)) = None"
  shows "(\<exists>out. llm_payload_from_lcov fs lcov_path repo_root C = Inr out \<and>
            length out = length files \<and> map payload_file out = map file files \<and>
            build_payload fs repo_root C f \<in> set out) \<and>
         (\<forall>s \<in> set (snippets (build_payload fs repo_root C f)). snippet_code s = []) \<and>
         uncovered_ranges (build_payload fs repo_root C f) =
           merge_ranges (map fst (filter (\<lambda>p. snd p = 0) (lines f))) \<and>
         uncovered_branches (build_payload fs repo_root C f) =
           map (\<lambda>br. (line br, branch br)) (filter (\<lambda>br. hits br = 0) (branches f)) \<and>
         unexecuted_functions (build_payload fs repo_root C f) =
           map (\<lambda>p. (fst p, dict_get (case fn_defs f of None \<Rightarrow> [] | Some d \<Rightarrow> d) (fst p)))
               (filter (\<lambda>p. snd p = 0) (functions f)) \<and>
         length (snippets (build_payload fs repo_root C f)) =
           length (snippets (build_payload fs' repo_root C f))"
proof (intro conjI)
  have "llm_payload_from_lcov fs lcov_path repo_root C =
        Inr (map (build_payload fs repo_root C) files)"
    by (simp add: llm_payload_from_lcov_def assms(1) bind_err_def)
  moreover have "map payload_file (map (build_payload fs repo_root C) files) = map file files"
    by (simp add: build_payload_def Let_def)
  ultimately show "\<exists>out. llm_payload_from_lcov fs lcov_path repo_root C = Inr out \<and>
            length out = length files \<and> map payload_file out = map file files \<and>
            build_payload fs repo_root C f \<in> set out"
    using assms(2) by simp
next
  show "\<forall>s \<in> set (snippets (build_payload fs repo_root C f)). snippet_code s = []"
    using assms(3)
    by (auto simp: build_payload_def Let_def slice_around_unreadable
        dest: function_snippets_unreadable)
next
  show "length (snippets (build_payload fs repo_root C f)) =
        length (snippets (build_payload fs' repo_root C f))"
    using length_function_snippets[of
        "case fs (path_join repo_root (file f)) of None \<Rightarrow> [] | Some ls \<Rightarrow> ls" C
        "map (\<lambda>p. (fst p, dict_get (case fn_defs f of None \<Rightarrow> [] | Some d \<Rightarrow> d) (fst p)))
             (filter (\<lambda>p. snd p = 0) (functions f))"
        "case fs' (path_join repo_root (file f)) of None \<Rightarrow> [] | Some ls \<Rightarrow> ls"]
    by (simp add: build_payload_def Let_def)
qed (simp_all add: build_payload_def Let_def)

lemma parse_fs_two: "parse_lcov fs_two ''lcov.info'' = Inr [rec_gone, rec_b]"
  by (simp add: fs_two_def rec_gone_def rec_b_def eval_simps)

lemma payload_fs_two:
  "llm_payload_from_lcov fs_two ''lcov.info'' ''.'' 40 =
   Inr [\<lparr>payload_file = ''gone.c'', uncovered_ranges = [(1, 2), (4, 4)],
         uncovered_branches = [(1, 0)], unexecuted_functions = [(''f'', Some 1)],
         snippets = [Lines_snippet (1, 2) [], Lines_snippet (4, 4) [], Function_snippet ''f'' 1 []]\<rparr>,
        \<lparr>payload_file = ''b.c'', uncovered_ranges = [(2, 2)],
         uncovered_branches = [], unexecuted_functions = [],
         snippets = [Lines_snippet (2, 2) ''xy'']\<rparr>]"
  by (simp add: fs_two_def eval_simps)

theorem source_unavailable_witness:
  "parse_lcov fs_two ''lcov.info'' = Inr [rec_gone, rec_b] \<and>
   rec_gone \<in> set [rec_gone, rec_b] \<and>
   fs_two (path_join ''.'' (file rec_gone)) = None \<and>
   (\<exists>out. llm_payload_from_lcov fs_two ''lcov.info'' ''.'' 40 = Inr out \<and> length out = 2) \<and>
   map snippet_code (snippets (build_payload fs_two ''.'' 40 rec_gone)) = [[], [], []] \<and>
   uncovered_ranges (build_payload fs_two ''.'' 40 rec_gone) = [(1, 2), (4, 4)] \<and>
   snippets (build_payload fs_two ''.'' 40 rec_b) = [Lines_snippet (2, 2) ''xy'']"
proof -
  have h3: "fs_two (path_join ''.'' (file rec_gone)) = None"
    by (simp add: fs_two_def rec_gone_def path_join_def startswith_def endswith_def)
  have h2: "rec_gone \<in> set [rec_gone, rec_b]" by simp
  have pl: "build_payload fs_two ''.'' 40 rec_gone =
      \<lparr>payload_file = ''gone.c'', uncovered_ranges = [(1, 2), (4, 4)],
         uncovered_branches = [(1, 0)], unexecuted_functions = [(''f'', Some 1)],
         snippets = [Lines_snippet (1, 2) [], Lines_snippet (4, 4) [], Function_snippet ''f'' 1 []]\<rparr>"
   and pb: "build_payload fs_two ''.'' 40 rec_b =
      \<lparr>payload_file = ''b.c'', uncovered_ranges = [(2, 2)],
         uncovered_branches = [], unexecuted_functions = [],
         snippets = [Lines_snippet (2, 2) ''xy'']\<rparr>"
    using payload_fs_two by (simp_all add: llm_payload_from_lcov_def parse_fs_two bind_err_def)
  from source_unavailable[OF parse_fs_two h2 h3, of 40 fs_two] have
    "\<exists>out. llm_payload_from_lcov fs_two ''lcov.info'' ''.'' 40 = Inr out \<and> length out = 2"
    by auto
  with parse_fs_two h2 h3 pl pb show ?thesis by simp
qed

subsection \<open>The loop of \<^verbatim>\<open>parse_lcov\<close>\<close>

lemma da_field_None: "da_field None s \<noteq> Inr c"
  by (simp add: da_field_def bind_err_def split: list.splits sum.splits)

lemma fn_field_None: "fn_field None s \<noteq> Inr c"
  by (simp add: fn_field_def bind_err_def split: list.splits sum.splits)

lemma fnda_field_None: "fnda_field None s \<noteq> Inr c"
  by (simp add: fnda_field_def bind_err_def split: list.splits sum.splits)

lemma brda_field_None: "brda_field None s \<noteq> Inr c"
  by (simp add: brda_field_def bind_err_def split: list.splits sum.splits)

lemma bind_err_Inr: "bind_err m f = Inr y \<longleftrightarrow> (\<exists>x. m = Inr x \<and> f x = Inr y)"
  by (cases m) (simp_all add: bind_err_def)

lemma parse_line_no_record:
  assumes "\<not> startswith (strip raw) ''SF:''" and "parse_line (files, None) raw = Inr st'"
  shows "st' = (files, None)"
  using assms
  by (auto simp: parse_line_def Let_def bind_err_Inr flush_def
      da_field_None fn_field_None fnda_field_None brda_field_None split: if_splits)

lemma parse_line_SF:
  assumes "startswith (strip raw) ''SF:''"
  shows "parse_line (files, cur) raw =
         Inr (flush files cur, Some (empty_record (drop 3 (strip raw))))"
proof -
  from assms have "\<not> startswith (strip raw) ''TN:''" by (auto simp: startswith_def)
  with assms show ?thesis by (simp add: parse_line_def empty_record_def)
qed

lemma parse_line_end_of_record:
  assumes "strip raw = ''end_of_record''"
  shows "parse_line (files, cur) raw = Inr (flush files cur, None)"
  by (simp add: parse_line_def assms startswith_def)

lemma da_field_Some:
  assumes "da_field (Some c) s = Inr c'"
  shows "\<exists>ln hs rest n h. py_split CHR '','' 2 s = ln # hs # rest \<and> py_int ln = Inr n \<and>
           py_int hs = Inr h \<and> c' = c\<lparr>lines := dict_set (lines c) n h\<rparr>"
  using assms
  by (auto simp: da_field_def bind_err_Inr split: list.splits)

lemma fn_field_Some:
  assumes "fn_field (Some c) s = Inr c'"
  shows "file c' = file c \<and> lines c' = lines c"
  using assms by (auto simp: fn_field_def bind_err_Inr split: list.splits)

lemma fnda_field_Some:
  assumes "fnda_field (Some c) s = Inr c'"
  shows "file c' = file c \<and> lines c' = lines c"
  using assms by (auto simp: fnda_field_def bind_err_Inr split: list.splits)

lemma brda_field_Some:
  assumes "brda_field (Some c) s = Inr c'"
  shows "file c' = file c \<and> lines c' = lines c"
  using assms by (auto simp: brda_field_def bind_err_Inr split: list.splits)

lemma parse_line_record:
  assumes "\<not> startswith (strip raw) ''SF:''" and "strip raw \<noteq> ''end_of_record''"
    and "parse_line (files, Some c) raw = Inr st'"
  shows "\<exists>c'. st' = (files, Some c') \<and> file c' = file c \<and>
           lines c' = (case spec_da_entry raw of
                         None \<Rightarrow> lines c
                       | Some p \<Rightarrow> dict_set (lines c) (fst p) (snd p)) \<and>
           (\<forall>files'. parse_line (files', Some c) raw = Inr (files', Some c'))"
proof -
  consider (tn) "startswith (strip raw) ''TN:''"
    | (da) "\<not> startswith (strip raw) ''TN:''" "startswith (strip raw) ''DA:''"
    | (fn) "\<not> startswith (strip raw) ''TN:''" "\<not> startswith (strip raw) ''DA:''"
        "startswith (strip raw) ''FN:''"
    | (fnda) "\<not> startswith (strip raw) ''TN:''" "\<not> startswith (strip raw) ''DA:''"
        "\<not> startswith (strip raw) ''FN:''" "startswith (strip raw) ''FNDA:''"
    | (brda) "\<not> startswith (strip raw) ''TN:''" "\<not> startswith (strip raw) ''DA:''"
        "\<not> startswith (strip raw) ''FN:''" "\<not> startswith (strip raw) ''FNDA:''"
        "startswith (strip raw) ''BRDA:''"
    | (other) "\<not> startswith (strip raw) ''TN:''" "\<not> startswith (strip raw) ''DA:''"
        "\<not> startswith (strip raw) ''FN:''" "\<not> startswith (strip raw) ''FNDA:''"
        "\<not> startswith (strip raw) ''BRDA:''"
    by blast
  then show ?thesis
  proof cases
    case tn
    then have "\<not> startswith (strip raw) ''DA:''" by (auto simp: startswith_def)
    with tn assms show ?thesis by (simp add: parse_line_def spec_da_entry_def)
  next
    case da
    with assms obtain c' where c': "da_field (Some c) (drop 3 (strip raw)) = Inr c'"
      and st': "st' = (files, Some c')"
      by (auto simp: parse_line_def bind_err_Inr)
    from da_field_Some[OF c'] obtain ln hs rest n h where
      "py_split CHR '','' 2 (drop 3 (strip raw)) = ln # hs # rest" "py_int ln = Inr n"
      "py_int hs = Inr h" "c' = c\<lparr>lines := dict_set (lines c) n h\<rparr>"
      by blast
    with da assms(1) c' st' show ?thesis
      by (simp add: parse_line_def spec_da_entry_def bind_err_def)
  next
    case fn
    with assms obtain c' where c': "fn_field (Some c) (drop 3 (strip raw)) = Inr c'"
      and st': "st' = (files, Some c')"
      by (auto simp: parse_line_def bind_err_Inr)
    with fn assms(1) fn_field_Some[OF c'] show ?thesis
      by (simp add: parse_line_def spec_da_entry_def bind_err_def)
  next
    case fnda
    with assms obtain c' where c': "fnda_field (Some c) (drop 5 (strip raw)) = Inr c'"
      and st': "st' = (files, Some c')"
      by (auto simp: parse_line_def bind_err_Inr)
    with fnda assms(1) fnda_field_Some[OF c'] show ?thesis
      by (simp add: parse_line_def spec_da_entry_def bind_err_def)
  next
    case brda
    with assms obtain c' where c': "brda_field (Some c) (drop 5 (strip raw)) = Inr c'"
      and st': "st' = (files, Some c')"
      by (auto simp: parse_line_def bind_err_Inr)
    with brda assms(1) brda_field_Some[OF c'] show ?thesis
      by (simp add: parse_line_def spec_da_entry_def bind_err_def)
  next
    case other
    with assms show ?thesis by (simp add: parse_line_def spec_da_entry_def)
  qed
qed

lemma parse_lines_append:
  "parse_lines st (xs @ ys) = Inr r \<longleftrightarrow>
   (\<exists>st'. parse_lines st xs = Inr st' \<and> parse_lines st' ys = Inr r)"
  by (induction xs arbitrary: st) (auto split: sum.splits)

lemma parse_lines_Cons:
  "parse_lines st (x # xs) = Inr r \<longleftrightarrow>
   (\<exists>st'. parse_line st x = Inr st' \<and> parse_lines st' xs = Inr r)"
  by (auto split: sum.splits)

lemma parse_lines_no_record:
  assumes "\<forall>l \<in> set ls. \<not> startswith (strip l) ''SF:''"
    and "parse_lines (files, None) ls = Inr st'"
  shows "st' = (files, None)"
  using assms
proof (induction ls)
  case Nil
  then show ?case by simp
next
  case (Cons l ls)
  from Cons.prems(2)[unfolded parse_lines_Cons]
  obtain st1 where 1: "parse_line (files, None) l = Inr st1"
    and 2: "parse_lines st1 ls = Inr st'"
    by blast
  from parse_line_no_record[OF _ 1] Cons.prems(1) have "st1 = (files, None)" by simp
  with Cons.IH 2 Cons.prems(1) show ?case by simp
qed

lemma parse_lines_record:
  assumes "\<forall>l \<in> set ls. \<not> startswith (strip l) ''SF:'' \<and> strip l \<noteq> ''end_of_record''"
    and "parse_lines (files, Some c) ls = Inr st'"
  shows "\<exists>c'. st' = (files, Some c') \<and> file c' = file c \<and>
           lines c' = set_entries (lines c) (spec_da_entries ls) \<and>
           (\<forall>files'. parse_lines (files', Some c) ls = Inr (files', Some c'))"
  using assms
proof (induction ls arbitrary: c)
  case Nil
  then show ?case by (simp add: spec_da_entries_def set_entries_def map_filter_simps)
next
  case (Cons l ls)
  from Cons.prems(2)[unfolded parse_lines_Cons]
  obtain st1 where 1: "parse_line (files, Some c) l = Inr st1"
    and 2: "parse_lines st1 ls = Inr st'"
    by blast
  from parse_line_record[OF _ _ 1] Cons.prems(1) obtain c1 where
    st1: "st1 = (files, Some c1)" and f1: "file c1 = file c"
    and l1: "lines c1 = (case spec_da_entry l of None \<Rightarrow> lines c
                          | Some p \<Rightarrow> dict_set (lines c) (fst p) (snd p))"
    and i1: "\<forall>files'. parse_line (files', Some c) l = Inr (files', Some c1)"
    by auto
  from Cons.IH[of c1] 2 st1 Cons.prems(1) obtain c' where
    st': "st' = (files, Some c')" and f': "file c' = file c1"
    and l': "lines c' = set_entries (lines c1) (spec_da_entries ls)"
    and i': "\<forall>files'. parse_lines (files', Some c1) ls = Inr (files', Some c')"
    by auto
  have "set_entries (lines c1) (spec_da_entries ls) = set_entries (lines c) (spec_da_entries (l # ls))"
    using l1 by (simp add: spec_da_entries_def set_entries_def map_filter_simps split: option.splits)
  with st' f' f1 l' i1 i' show ?case by simp
qed

lemma parse_lcov_Inr:
  assumes "fs path = Some report"
  shows "parse_lcov fs path = Inr rs \<longleftrightarrow>
         (\<exists>st. parse_lines ([], None) report = Inr st \<and> rs = flush (fst st) (snd st))"
  using assms by (auto simp: parse_lcov_def bind_err_Inr)

lemma flush_conv: "flush files cur = files @ (case cur of None \<Rightarrow> [] | Some c \<Rightarrow> [c])"
  by (cases cur) (simp_all add: flush_def)

lemma parse_line_files:
  assumes "parse_line (files, cur) raw = Inr (files', cur')"
  shows "\<exists>ext. files' = files @ ext"
  using assms
  by (auto simp: parse_line_def Let_def bind_err_Inr flush_conv split: if_splits)

lemma parse_lines_files:
  assumes "parse_lines (files, cur) ls = Inr (files', cur')"
  shows "\<exists>ext. files' = files @ ext"
  using assms
proof (induction ls arbitrary: files cur)
  case Nil
  then show ?case by simp
next
  case (Cons l ls)
  from Cons.prems[unfolded parse_lines_Cons]
  obtain f1 c1 where 1: "parse_line (files, cur) l = Inr (f1, c1)"
    and 2: "parse_lines (f1, c1) ls = Inr (files', cur')"
    by auto
  from parse_line_files[OF 1] Cons.IH[OF 2] show ?case by auto
qed

subsection \<open>Sections without \<^verbatim>\<open>end_of_record\<close>\<close>

text \<open>
  C2. For every report with exactly two \<^verbatim>\<open>SF:\<close> lines and no \<^verbatim>\<open>end_of_record\<close> line that
  parses without an exception, \<^verbatim>\<open>parse_lcov\<close> returns exactly two records, in report
  order, with the paths of the two \<^verbatim>\<open>SF:\<close> lines; each is the record its section gives
  when parsed alone. The first is flushed by the second \<^verbatim>\<open>SF:\<close> line, the second at
  the end of input.
\<close>

theorem two_sections_without_end_of_record:
  assumes rep: "fs path = Some (pre @ sf1 # b1 @ sf2 # b2)"
    and sf1: "startswith (strip sf1) ''SF:''" and sf2: "startswith (strip sf2) ''SF:''"
    and nosf: "\<forall>l \<in> set (pre @ b1 @ b2). \<not> startswith (strip l) ''SF:''"
    and noeor: "\<forall>l \<in> set (pre @ sf1 # b1 @ sf2 # b2). strip l \<noteq> ''end_of_record''"
    and ok: "parse_lcov fs path = Inr rs"
  shows "\<exists>r1 r2. rs = [r1, r2] \<and>
           file r1 = drop 3 (strip sf1) \<and> file r2 = drop 3 (strip sf2) \<and>
           parse_lcov (fs(path \<mapsto> sf1 # b1)) path = Inr [r1] \<and>
           parse_lcov (fs(path \<mapsto> sf2 # b2)) path = Inr [r2]"
proof -
  from ok[unfolded parse_lcov_Inr[of fs path, OF rep]] obtain st where
    st: "parse_lines ([], None) (pre @ sf1 # b1 @ sf2 # b2) = Inr st"
    and rs: "rs = flush (fst st) (snd st)"
    by blast
  from st[unfolded parse_lines_append] obtain st0 where
    p0: "parse_lines ([], None) pre = Inr st0"
    and q0: "parse_lines st0 (sf1 # b1 @ sf2 # b2) = Inr st"
    by blast
  from parse_lines_no_record[OF _ p0] nosf have st0: "st0 = ([], None)" by simp
  let ?e1 = "empty_record (drop 3 (strip sf1))"
  let ?e2 = "empty_record (drop 3 (strip sf2))"
  from q0[unfolded parse_lines_Cons] obtain st1 where
    "parse_line st0 sf1 = Inr st1" and q1: "parse_lines st1 (b1 @ sf2 # b2) = Inr st"
    by blast
  with parse_line_SF[OF sf1, of "[]" None] st0 have st1: "st1 = ([], Some ?e1)"
    by (simp add: flush_def)
  from q1[unfolded parse_lines_append] obtain st2 where
    p2: "parse_lines st1 b1 = Inr st2" and q2: "parse_lines st2 (sf2 # b2) = Inr st"
    by blast
  from parse_lines_record[OF _ p2[unfolded st1]] nosf noeor obtain r1 where
    st2: "st2 = ([], Some r1)" and f1: "file r1 = file ?e1"
    and i1: "\<forall>files'. parse_lines (files', Some ?e1) b1 = Inr (files', Some r1)"
    by auto
  from q2[unfolded parse_lines_Cons] obtain st3 where
    "parse_line st2 sf2 = Inr st3" and q3: "parse_lines st3 b2 = Inr st"
    by blast
  with parse_line_SF[OF sf2, of "[]" "Some r1"] st2 have st3: "st3 = ([r1], Some ?e2)"
    by (simp add: flush_def)
  from parse_lines_record[OF _ q3[unfolded st3]] nosf noeor obtain r2 where
    st4: "st = ([r1], Some r2)" and f2: "file r2 = file ?e2"
    and i2: "\<forall>files'. parse_lines (files', Some ?e2) b2 = Inr (files', Some r2)"
    by auto
  have a: "parse_lcov (fs(path \<mapsto> sf1 # b1)) path = Inr [r1]"
    using parse_line_SF[OF sf1, of "[]" None] i1
    by (simp add: parse_lcov_def bind_err_def flush_def)
  have b: "parse_lcov (fs(path \<mapsto> sf2 # b2)) path = Inr [r2]"
    using parse_line_SF[OF sf2, of "[]" None] i2
    by (simp add: parse_lcov_def bind_err_def flush_def)
  from rs st4 f1 f2 a b show ?thesis
    by (simp add: flush_def empty_record_def)
qed

lemma parse_fs_sections: "parse_lcov fs_sections ''lcov.info'' = Inr [rec_sections_a, rec_sections_b]"
  by (simp add: fs_sections_def rec_sections_a_def rec_sections_b_def eval_simps)

theorem two_sections_without_end_of_record_witness:
  "fs_sections ''lcov.info'' =
     Some ([''TN:''] @ ''SF:a.c'' # [''DA:1,1'', ''DA:2,0''] @ ''SF:b.c'' # [''DA:7,0'', ''FNDA:3,g'']) \<and>
   startswith (strip ''SF:a.c'') ''SF:'' \<and> startswith (strip ''SF:b.c'') ''SF:'' \<and>
   parse_lcov fs_sections ''lcov.info'' = Inr [rec_sections_a, rec_sections_b] \<and>
   file rec_sections_a = ''a.c'' \<and> file rec_sections_b = ''b.c'' \<and>
   parse_lcov (fs_sections(''lcov.info'' \<mapsto> [''SF:a.c'', ''DA:1,1'', ''DA:2,0''])) ''lcov.info'' =
     Inr [rec_sections_a]"
proof -
  have rep: "fs_sections ''lcov.info'' =
     Some ([''TN:''] @ ''SF:a.c'' # [''DA:1,1'', ''DA:2,0''] @ ''SF:b.c'' # [''DA:7,0'', ''FNDA:3,g''])"
    by (simp add: fs_sections_def)
  have sf1: "startswith (strip ''SF:a.c'') ''SF:''" and sf2: "startswith (strip ''SF:b.c'') ''SF:''"
    by (simp_all add: startswith_def strip_def is_space_def)
  have nosf: "\<forall>l \<in> set ([''TN:''] @ [''DA:1,1'', ''DA:2,0''] @ [''DA:7,0'', ''FNDA:3,g'']).
      \<not> startswith (strip l) ''SF:''"
    by (simp add: startswith_def strip_def is_space_def)
  have noeor: "\<forall>l \<in> set ([''TN:''] @ ''SF:a.c'' # [''DA:1,1'', ''DA:2,0''] @ ''SF:b.c'' #
      [''DA:7,0'', ''FNDA:3,g'']). strip l \<noteq> ''end_of_record''"
    by (simp add: strip_def is_space_def)
  from two_sections_without_end_of_record[OF rep sf1 sf2 nosf noeor parse_fs_sections]
  have "parse_lcov (fs_sections(''lcov.info'' \<mapsto> [''SF:a.c'', ''DA:1,1'', ''DA:2,0''])) ''lcov.info'' =
     Inr [rec_sections_a]"
    by simp
  with rep sf1 sf2 parse_fs_sections show ?thesis
    by (simp add: rec_sections_a_def rec_sections_b_def)
qed

subsection \<open>The \<^verbatim>\<open>lines\<close> mapping\<close>

lemma map_of_set_entries: "map_of (set_entries d es) = map_of d ++ map_of (rev es)"
proof (induction es arbitrary: d)
  case Nil
  then show ?case by (simp add: set_entries_def)
next
  case (Cons p es)
  have "map_of (set_entries d (p # es)) = map_of (set_entries (dict_set d (fst p) (snd p)) es)"
    by (simp add: set_entries_def)
  also have "\<dots> = map_of (dict_set d (fst p) (snd p)) ++ map_of (rev es)"
    by (rule Cons.IH)
  also have "\<dots> = (map_of d)(fst p \<mapsto> snd p) ++ map_of (rev es)"
    by (simp only: dict_set_def update_conv')
  also have "\<dots> = map_of d ++ map_of (rev (p # es))"
    by (rule ext) (simp add: map_add_def split: option.splits)
  finally show ?case .
qed

lemma distinct_set_entries:
  "distinct (map fst d) \<Longrightarrow> distinct (map fst (set_entries d es))"
proof (induction es arbitrary: d)
  case Nil
  then show ?case by (simp add: set_entries_def)
next
  case (Cons p es)
  have "set_entries d (p # es) = set_entries (dict_set d (fst p) (snd p)) es"
    by (simp add: set_entries_def)
  moreover from Cons.prems have "distinct (map fst (dict_set d (fst p) (snd p)))"
    by (simp add: dict_set_def distinct_update)
  ultimately show ?case using Cons.IH by simp
qed

lemma set_set_entries:
  assumes "\<forall>p \<in> set es. \<forall>q \<in> set es. fst p = fst q \<longrightarrow> snd p = snd q"
  shows "set (set_entries [] es) = set es"
proof -
  have d: "distinct (map fst (set_entries [] es))"
    by (rule distinct_set_entries) simp
  have m: "map_of (set_entries [] es) = map_of (rev es)"
    by (simp add: map_of_set_entries)
  have "(n, h) \<in> set (set_entries [] es) \<longleftrightarrow> (n, h) \<in> set es" for n h
  proof
    assume "(n, h) \<in> set (set_entries [] es)"
    with d m have "map_of (rev es) n = Some h" by (metis map_of_eq_Some_iff)
    then show "(n, h) \<in> set es" by (auto dest: map_of_SomeD)
  next
    assume a: "(n, h) \<in> set es"
    then have "(n, h) \<in> set (rev es)" by simp
    then obtain h' where h': "map_of (rev es) n = Some h'"
      by (meson weak_map_of_SomeI)
    then have "(n, h') \<in> set es" by (auto dest: map_of_SomeD)
    with a assms have "h' = h" by fastforce
    with h' d m show "(n, h) \<in> set (set_entries [] es)" by (metis map_of_eq_Some_iff)
  qed
  then show ?thesis by auto
qed

text \<open>
  C9. For every report that parses without an exception and every section of it (an
  \<^verbatim>\<open>SF:\<close> line, the lines up to the next \<^verbatim>\<open>SF:\<close> or \<^verbatim>\<open>end_of_record\<close> line or the end of
  input), the record of that section is the one after the records of the lines before
  it, its \<^verbatim>\<open>lines\<close> mapping has each key once and maps every line number to the hit
  count of the last \<^verbatim>\<open>DA:\<close> line of the section for it; when no line number is reported
  with two different hit counts, the entries of the mapping are exactly the
  \<^verbatim>\<open>DA:\<close> entries of the section (compared as sets, so in any order).
\<close>

theorem da_round_trip:
  assumes rep: "fs path = Some (pre @ sf # body @ post)"
    and sf: "startswith (strip sf) ''SF:''"
    and body: "\<forall>l \<in> set body. \<not> startswith (strip l) ''SF:'' \<and> strip l \<noteq> ''end_of_record''"
    and post: "post = [] \<or> startswith (strip (hd post)) ''SF:'' \<or>
               strip (hd post) = ''end_of_record''"
    and ok: "parse_lcov fs path = Inr rs"
  shows "\<exists>rs_pre. parse_lcov (fs(path \<mapsto> pre)) path = Inr rs_pre \<and>
           length rs_pre < length rs \<and>
           file (rs ! length rs_pre) = drop 3 (strip sf) \<and>
           distinct (map fst (lines (rs ! length rs_pre))) \<and>
           map_of (lines (rs ! length rs_pre)) = map_of (rev (spec_da_entries body)) \<and>
           ((\<forall>p \<in> set (spec_da_entries body). \<forall>q \<in> set (spec_da_entries body).
               fst p = fst q \<longrightarrow> snd p = snd q) \<longrightarrow>
            set (lines (rs ! length rs_pre)) = set (spec_da_entries body))"
proof -
  from ok[unfolded parse_lcov_Inr[of fs path, OF rep]] obtain st where
    st: "parse_lines ([], None) (pre @ sf # body @ post) = Inr st"
    and rs: "rs = flush (fst st) (snd st)"
    by blast
  from st[unfolded parse_lines_append] obtain st0 where
    p0: "parse_lines ([], None) pre = Inr st0"
    and q0: "parse_lines st0 (sf # body @ post) = Inr st"
    by blast
  define rs_pre where "rs_pre = flush (fst st0) (snd st0)"
  have pre: "parse_lcov (fs(path \<mapsto> pre)) path = Inr rs_pre"
    by (simp add: parse_lcov_def p0 bind_err_def rs_pre_def)
  let ?e = "empty_record (drop 3 (strip sf))"
  from q0[unfolded parse_lines_Cons] obtain st1 where
    "parse_line st0 sf = Inr st1" and q1: "parse_lines st1 (body @ post) = Inr st"
    by blast
  with parse_line_SF[OF sf, of "fst st0" "snd st0"] have st1: "st1 = (rs_pre, Some ?e)"
    by (simp add: rs_pre_def)
  from q1[unfolded parse_lines_append] obtain st2 where
    p2: "parse_lines st1 body = Inr st2" and q2: "parse_lines st2 post = Inr st"
    by blast
  from parse_lines_record[OF body p2[unfolded st1]] obtain r where
    st2: "st2 = (rs_pre, Some r)" and fr: "file r = file ?e"
    and lr: "lines r = set_entries (lines ?e) (spec_da_entries body)"
    by auto
  have "\<exists>ext. rs = rs_pre @ r # ext"
  proof (cases post)
    case Nil
    with q2 st2 rs show ?thesis by (auto simp: flush_def)
  next
    case (Cons p ps)
    with post have "startswith (strip p) ''SF:'' \<or> strip p = ''end_of_record''" by simp
    then have "\<exists>cur. parse_line st2 p = Inr (rs_pre @ [r], cur)"
      using parse_line_SF[of p rs_pre "Some r"] parse_line_end_of_record[of p rs_pre "Some r"]
      by (auto simp: st2 flush_def)
    then obtain cur where 3: "parse_line st2 p = Inr (rs_pre @ [r], cur)" by blast
    from q2[unfolded Cons parse_lines_Cons] 3 have "parse_lines (rs_pre @ [r], cur) ps = Inr st"
      by auto
    then have "parse_lines (rs_pre @ [r], cur) ps = Inr (fst st, snd st)" by simp
    from parse_lines_files[OF this] obtain ext where "fst st = (rs_pre @ [r]) @ ext" by blast
    with rs show ?thesis by (simp add: flush_conv)
  qed
  then obtain ext where ext: "rs = rs_pre @ r # ext" by blast
  then have nth: "rs ! length rs_pre = r" and len: "length rs_pre < length rs" by simp_all
  have l0: "lines r = set_entries [] (spec_da_entries body)"
    using lr by (simp add: empty_record_def)
  have d: "distinct (map fst (lines r))"
    unfolding l0 by (rule distinct_set_entries) simp
  have m: "map_of (lines r) = map_of (rev (spec_da_entries body))"
    unfolding l0 by (simp add: map_of_set_entries)
  have s: "set (lines r) = set (spec_da_entries body)"
    if "\<forall>p \<in> set (spec_da_entries body). \<forall>q \<in> set (spec_da_entries body).
          fst p = fst q \<longrightarrow> snd p = snd q"
    unfolding l0 by (rule set_set_entries[OF that])
  show ?thesis
  proof (intro exI[of _ rs_pre] conjI)
    show "parse_lcov (fs(path \<mapsto> pre)) path = Inr rs_pre" by (rule pre)
    show "length rs_pre < length rs" by (rule len)
    show "file (rs ! length rs_pre) = drop 3 (strip sf)"
      using fr by (simp add: nth empty_record_def)
    show "distinct (map fst (lines (rs ! length rs_pre)))"
      unfolding nth by (rule d)
    show "map_of (lines (rs ! length rs_pre)) = map_of (rev (spec_da_entries body))"
      unfolding nth by (rule m)
    show "(\<forall>p \<in> set (spec_da_entries body). \<forall>q \<in> set (spec_da_entries body).
             fst p = fst q \<longrightarrow> snd p = snd q) \<longrightarrow>
          set (lines (rs ! length rs_pre)) = set (spec_da_entries body)"
      unfolding nth using s by blast
  qed
qed

lemma parse_fs_round_trip:
  "parse_lcov fs_round_trip ''lcov.info'' = Inr [rec_round_trip_a, rec_round_trip_b]"
  by (simp add: fs_round_trip_def rec_round_trip_a_def rec_round_trip_b_def eval_simps)

lemma parse_fs_round_trip_pre:
  "parse_lcov (fs_round_trip(''lcov.info'' \<mapsto> [''SF:a.c'', ''DA:1,1'', ''end_of_record'']))
     ''lcov.info'' = Inr [rec_round_trip_a]"
  by (simp add: rec_round_trip_a_def eval_simps)

lemma entries_fs_round_trip:
  "spec_da_entries [''DA:3,1'', ''DA:1,0,abc'', ''FN:1,f'', '' DA:2,5 ''] = [(3, 1), (1, 0), (2, 5)]"
  by (simp add: spec_da_entries_def spec_da_entry_def map_filter_simps eval_simps)

theorem da_round_trip_witness:
  "fs_round_trip ''lcov.info'' =
     Some ([''SF:a.c'', ''DA:1,1'', ''end_of_record''] @ ''SF:b.c'' #
           [''DA:3,1'', ''DA:1,0,abc'', ''FN:1,f'', '' DA:2,5 ''] @ [''end_of_record'']) \<and>
   startswith (strip ''SF:b.c'') ''SF:'' \<and>
   parse_lcov fs_round_trip ''lcov.info'' = Inr [rec_round_trip_a, rec_round_trip_b] \<and>
   spec_da_entries [''DA:3,1'', ''DA:1,0,abc'', ''FN:1,f'', '' DA:2,5 ''] = [(3, 1), (1, 0), (2, 5)] \<and>
   set (lines rec_round_trip_b) = set [(3, 1), (1, 0), (2, 5)]"
proof -
  let ?pre = "[''SF:a.c'', ''DA:1,1'', ''end_of_record'']"
  let ?body = "[''DA:3,1'', ''DA:1,0,abc'', ''FN:1,f'', '' DA:2,5 '']"
  let ?post = "[''end_of_record'']"
  have rep: "fs_round_trip ''lcov.info'' = Some (?pre @ ''SF:b.c'' # ?body @ ?post)"
    by (simp add: fs_round_trip_def)
  have sf: "startswith (strip ''SF:b.c'') ''SF:''"
    by (simp add: startswith_def strip_def is_space_def)
  have body: "\<forall>l \<in> set ?body. \<not> startswith (strip l) ''SF:'' \<and> strip l \<noteq> ''end_of_record''"
    by (simp add: startswith_def strip_def is_space_def)
  have post: "?post = [] \<or> startswith (strip (hd ?post)) ''SF:'' \<or>
              strip (hd ?post) = ''end_of_record''"
    by (simp add: strip_def is_space_def)
  have uniq: "\<forall>p \<in> set (spec_da_entries ?body). \<forall>q \<in> set (spec_da_entries ?body).
      fst p = fst q \<longrightarrow> snd p = snd q"
    by (simp add: entries_fs_round_trip)
  from da_round_trip[OF rep sf body post parse_fs_round_trip] uniq obtain rs_pre where
    "parse_lcov (fs_round_trip(''lcov.info'' \<mapsto> ?pre)) ''lcov.info'' = Inr rs_pre"
    and s: "set (lines ([rec_round_trip_a, rec_round_trip_b] ! length rs_pre)) =
            set (spec_da_entries ?body)"
    by blast
  with parse_fs_round_trip_pre have "length rs_pre = 1" by simp
  with s have "set (lines rec_round_trip_b) = set [(3, 1), (1, 0), (2, 5)]"
    by (simp add: entries_fs_round_trip)
  with rep sf parse_fs_round_trip entries_fs_round_trip show ?thesis by simp
qed

subsection \<open>Field lines outside a record\<close>

text \<open>
  C4. A field line while no record is open is not skipped: \<^verbatim>\<open>cur\<close> is \<^verbatim>\<open>None\<close>, and
  \<^verbatim>\<open>cur['lines']\<close>, \<^verbatim>\<open>cur['functions']\<close>, \<^verbatim>\<open>cur['branches']\<close> raise \<^verbatim>\<open>TypeError\<close>,
  \<^verbatim>\<open>cur.setdefault\<close> raises \<^verbatim>\<open>AttributeError\<close>, before the first \<^verbatim>\<open>SF:\<close> line and after an
  \<^verbatim>\<open>end_of_record\<close> alike; the whole run fails.
\<close>

theorem field_line_without_record_raises:
  "parse_lcov (fs_stray [''DA:1,0'']) ''lcov.info'' = Inl TypeError \<and>
   parse_lcov (fs_stray [''FN:1,f'']) ''lcov.info'' = Inl AttributeError \<and>
   parse_lcov (fs_stray [''FNDA:0,f'']) ''lcov.info'' = Inl TypeError \<and>
   parse_lcov (fs_stray [''BRDA:1,0,0,-'']) ''lcov.info'' = Inl TypeError \<and>
   parse_lcov (fs_stray [''SF:a.c'', ''DA:1,1'', ''end_of_record'', ''DA:2,0'']) ''lcov.info'' =
     Inl TypeError \<and>
   llm_payload_from_lcov (fs_stray [''DA:1,0'']) ''lcov.info'' ''.'' 40 = Inl TypeError"
  by (simp add: fs_stray_def eval_simps)

subsection \<open>Malformed numeric fields\<close>











text \<open>
  The errors of \<^verbatim>\<open>int()\<close>: the digit limit comes before text after the digits is
  rejected, so 4301 digits followed by \<^verbatim>\<open>x\<close> raise the digit-limit error.
\<close>

lemma digits_ok_replicate: "0 < n \<Longrightarrow> digits_ok (replicate n CHR ''1'')"
proof (induction n rule: nat_induct_non_zero)
  case 1
  then show ?case by (simp add: is_digit_def)
next
  case (Suc n)
  then obtain m where "n = Suc m" by (cases n) auto
  with Suc show ?case by (simp add: is_digit_def)
qed

lemma py_int_digit_limit:
  assumes "4300 < n"
  shows "py_int (replicate n CHR ''1'' @ ''x'') = Inl (ValueError_digits n)"
proof -
  from assms obtain m where n: "n = Suc m" by (cases n) auto
  have t: "rev (dropWhile is_int_space (rev (dropWhile is_int_space (replicate n CHR ''1'' @ ''x''))))
           = replicate n CHR ''1'' @ ''x''"
    by (simp add: n is_int_space_def)
  have run: "takeWhile (\<lambda>c. is_digit c \<or> c = CHR ''_'') (replicate n CHR ''1'' @ ''x'')
             = replicate n CHR ''1''"
    by (simp add: takeWhile_append is_digit_def takeWhile_replicate)
  have sw: "\<not> startswith (replicate n CHR ''1'' @ ''x'') ''-''"
    "\<not> startswith (replicate n CHR ''1'' @ ''x'') ''+''"
    by (simp_all add: n startswith_def)
  have ok: "digits_ok (replicate n CHR ''1'')"
    using assms by (intro digits_ok_replicate) simp
  have len: "length (filter is_digit (replicate n CHR ''1'')) = n"
    by (simp add: is_digit_def)
  show ?thesis
    unfolding py_int_def t Let_def using sw ok len assms by (simp add: run)
qed





end
